theory Spec2Isabelle
  imports Main
begin

section \<open>Saved-tensor default hooks: the per-thread hook stack\<close>

text \<open>
  A shallow embedding of \<^verbatim>\<open>aten/src/ATen/SavedTensorHooks.cpp\<close>. The file keeps
  one thread-local struct \<^verbatim>\<open>tls\<close> and one process-wide flag \<^verbatim>\<open>is_initialized\<close>;
  every member function of \<^verbatim>\<open>SavedTensorDefaultHooks\<close> reads or writes these two.
  Each function becomes an action on the pair of them that returns either a failure
  or a value, together with the state it leaves behind.
\<close>

subsection \<open>Data\<close>

text \<open>
  A \<^verbatim>\<open>PyObject*\<close> is an opaque address; the only thing the code asks of it is
  whether it is \<^verbatim>\<open>nullptr\<close>.
\<close>

type_synonym PyObject_ptr = nat

definition nullptr :: PyObject_ptr where
  "nullptr = 0"

type_synonym hook_pair = "PyObject_ptr \<times> PyObject_ptr"

text \<open>
  Modelled from the spec: the struct \<^verbatim>\<open>c10::impl::SavedTensorDefaultHooksTLS\<close> is
  declared in \<^verbatim>\<open>c10/core/impl/SavedVariableHookTLS.h\<close>, which is not among the
  sources. Its three fields are the ones this file uses (\<^verbatim>\<open>tls.stack\<close>,
  \<^verbatim>\<open>tls.disabled_error_message\<close>, \<^verbatim>\<open>tls.is_tracing\<close>), the spec's \<open>entries\<close>,
  \<open>disabled_reason\<close> and \<open>tracing\<close>. The stack grows at its tail:
  \<^verbatim>\<open>emplace_back\<close> appends, \<^verbatim>\<open>back\<close> is the last element, \<^verbatim>\<open>pop_back\<close> drops it.
\<close>

record SavedTensorDefaultHooksTLS =
  stack :: "hook_pair list"
  disabled_error_message :: "string option"
  is_tracing :: bool

text \<open>The thread-local \<^verbatim>\<open>tls\<close> and the static \<^verbatim>\<open>is_initialized\<close> of lines 10 and 16.\<close>

record program_state =
  tls :: SavedTensorDefaultHooksTLS
  is_initialized :: bool

text \<open>
  The ways a call can end abnormally: \<^verbatim>\<open>TORCH_CHECK\<close> throws a \<^verbatim>\<open>c10::Error\<close>
  carrying a message (the caller may catch it); a failed \<^verbatim>\<open>assert\<close> aborts the
  process; \<^verbatim>\<open>std::optional::value()\<close> on an empty optional throws
  \<^verbatim>\<open>bad_optional_access\<close>. The \<^verbatim>\<open>assert\<close>s are modelled as written, that is, as
  checked (a build without \<^verbatim>\<open>NDEBUG\<close>).
\<close>

datatype failure = Error string | AssertionFailed | BadOptionalAccess

type_synonym 'a action = "program_state \<Rightarrow> (failure + 'a) \<times> program_state"

definition return_op :: "'a \<Rightarrow> 'a action" where
  "return_op v s = (Inr v, s)"

definition throw_op :: "failure \<Rightarrow> 'a action" where
  "throw_op e s = (Inl e, s)"

definition bind_op :: "'a action \<Rightarrow> ('a \<Rightarrow> 'b action) \<Rightarrow> 'b action" where
  "bind_op m f s = (case m s of (Inl e, s') \<Rightarrow> (Inl e, s') | (Inr v, s') \<Rightarrow> f v s')"

definition gets :: "(program_state \<Rightarrow> 'a) \<Rightarrow> 'a action" where
  "gets f s = (Inr (f s), s)"

definition modify :: "(program_state \<Rightarrow> program_state) \<Rightarrow> unit action" where
  "modify f s = (Inr (), f s)"

definition modify_tls ::
  "(SavedTensorDefaultHooksTLS \<Rightarrow> SavedTensorDefaultHooksTLS) \<Rightarrow> unit action" where
  "modify_tls f = modify (\<lambda>s. s\<lparr>tls := f (tls s)\<rparr>)"

text \<open>The C \<^verbatim>\<open>assert\<close> macro.\<close>

definition c_assert :: "bool \<Rightarrow> unit action" where
  "c_assert b = (if b then return_op () else throw_op AssertionFailed)"

text \<open>\<^verbatim>\<open>std::optional::value()\<close>.\<close>

definition optional_value :: "'a option \<Rightarrow> 'a action" where
  "optional_value x = (case x of None \<Rightarrow> throw_op BadOptionalAccess | Some v \<Rightarrow> return_op v)"

text \<open>
  Modelled from the spec: the macro \<^verbatim>\<open>TORCH_CHECK\<close> comes from
  \<^verbatim>\<open>c10/util/Exception.h\<close>, which is not among the sources. When the condition
  holds nothing happens; otherwise the message argument is evaluated (only then) and
  the failure carrying that message is raised.
\<close>

definition TORCH_CHECK :: "bool \<Rightarrow> string action \<Rightarrow> unit action" where
  "TORCH_CHECK cond msg =
     (if cond then return_op () else bind_op msg (\<lambda>m. throw_op (Error m)))"

subsection \<open>The member functions\<close>

text \<open>Lines 23--26.\<close>

definition is_enabled :: "bool action" where
  "is_enabled = gets (\<lambda>s. \<not> (disabled_error_message (tls s) \<noteq> None))"

text \<open>Lines 19--21.\<close>

definition assertSavedTensorHooksNotDisabled :: "unit action" where
  "assertSavedTensorHooksNotDisabled =
     bind_op is_enabled (\<lambda>en.
       TORCH_CHECK en
         (bind_op (gets (\<lambda>s. disabled_error_message (tls s))) optional_value))"

text \<open>Lines 28--33: the message is stored first, the stack is tested afterwards.\<close>

definition disable :: "string \<Rightarrow> unit action" where
  "disable message =
     bind_op (modify_tls (\<lambda>t. t\<lparr>disabled_error_message := Some message\<rparr>)) (\<lambda>_.
     bind_op (gets (\<lambda>s. stack (tls s) = [])) (\<lambda>emp.
       if \<not> emp then assertSavedTensorHooksNotDisabled else return_op ()))"

text \<open>Lines 35--37.\<close>

definition enable :: "unit action" where
  "enable = modify_tls (\<lambda>t. t\<lparr>disabled_error_message := None\<rparr>)"

text \<open>Lines 39--43.\<close>

definition set_tracing :: "bool \<Rightarrow> bool action" where
  "set_tracing v =
     bind_op (gets (\<lambda>s. is_tracing (tls s))) (\<lambda>prior.
     bind_op (modify_tls (\<lambda>t. t\<lparr>is_tracing := v\<rparr>)) (\<lambda>_.
       return_op prior))"

text \<open>Lines 45--47.\<close>

definition get_disabled_error_message :: "string option action" where
  "get_disabled_error_message = gets (\<lambda>s. disabled_error_message (tls s))"

text \<open>Lines 49--51.\<close>

definition get_tls_state :: "SavedTensorDefaultHooksTLS action" where
  "get_tls_state = gets tls"

text \<open>Lines 53--56.\<close>

definition set_tls_state :: "SavedTensorDefaultHooksTLS \<Rightarrow> unit action" where
  "set_tls_state state = modify (\<lambda>s. s\<lparr>tls := state\<rparr>)"

text \<open>Lines 58--60.\<close>

definition lazy_initialize :: "unit action" where
  "lazy_initialize = modify (\<lambda>s. s\<lparr>is_initialized := True\<rparr>)"

text \<open>Lines 62--68.\<close>

definition push_hooks :: "PyObject_ptr \<Rightarrow> PyObject_ptr \<Rightarrow> unit action" where
  "push_hooks pack_hook unpack_hook =
     bind_op (gets is_initialized) (\<lambda>ini.
     bind_op (c_assert ini) (\<lambda>_.
     bind_op (c_assert (pack_hook \<noteq> nullptr \<and> unpack_hook \<noteq> nullptr)) (\<lambda>_.
     bind_op assertSavedTensorHooksNotDisabled (\<lambda>_.
       modify_tls (\<lambda>t. t\<lparr>stack := stack t @ [(pack_hook, unpack_hook)]\<rparr>)))))"

text \<open>Lines 70--76.\<close>

definition pop_hooks :: "hook_pair action" where
  "pop_hooks =
     bind_op (gets (\<lambda>s. is_initialized s \<and> \<not> (stack (tls s) = []))) (\<lambda>ok.
     bind_op (c_assert ok) (\<lambda>_.
     bind_op (gets (\<lambda>s. last (stack (tls s)))) (\<lambda>hooks.
     bind_op (modify_tls (\<lambda>t. t\<lparr>stack := butlast (stack t)\<rparr>)) (\<lambda>_.
       return_op hooks))))"

text \<open>Lines 78--84.\<close>

definition get_hooks :: "hook_pair action" where
  "get_hooks =
     bind_op (gets (\<lambda>s. \<not> is_initialized s \<or> stack (tls s) = [] \<or> is_tracing (tls s))) (\<lambda>none.
       if none then return_op (nullptr, nullptr)
       else gets (\<lambda>s. last (stack (tls s))))"

subsection \<open>Initial states and sequences of scope operations\<close>

text \<open>
  The state of a process that has not touched the hooks: \<^verbatim>\<open>is_initialized\<close> starts
  \<^verbatim>\<open>false\<close> (line 16), the stack is empty, no message is stored and tracing is
  off. \<open>ready_state\<close> is that state after \<^verbatim>\<open>lazy_initialize\<close>.
\<close>

definition fresh_state :: program_state where
  "fresh_state =
     \<lparr>tls = \<lparr>stack = [], disabled_error_message = None, is_tracing = False\<rparr>,
      is_initialized = False\<rparr>"

definition ready_state :: program_state where
  "ready_state = fresh_state\<lparr>is_initialized := True\<rparr>"

text \<open>
  A caller that opens and closes handler scopes issues a sequence of pushes and pops;
  \<open>run\<close> performs them in order and stops at the first failure, as the exception or
  the abort would.
\<close>

datatype hook_op = Push PyObject_ptr PyObject_ptr | Pop

fun run :: "hook_op list \<Rightarrow> unit action" where
  "run [] = return_op ()"
| "run (Push p u # rest) = bind_op (push_hooks p u) (\<lambda>_. run rest)"
| "run (Pop # rest) = bind_op pop_hooks (\<lambda>_. run rest)"

text \<open>
  A sequence is balanced when no pop comes without an earlier push still open and
  no push is left open at the end; \<open>balanced_from n\<close> counts the scopes open so far.
\<close>

fun balanced_from :: "nat \<Rightarrow> hook_op list \<Rightarrow> bool" where
  "balanced_from n [] = (n = 0)"
| "balanced_from n (Push p u # rest) = balanced_from (Suc n) rest"
| "balanced_from n (Pop # rest) = (case n of 0 \<Rightarrow> False | Suc m \<Rightarrow> balanced_from m rest)"

definition balanced :: "hook_op list \<Rightarrow> bool" where
  "balanced ops = balanced_from 0 ops"

text \<open>Every pair a sequence pushes is a pair of handles, neither of them null.\<close>

fun handles_valid :: "hook_op list \<Rightarrow> bool" where
  "handles_valid [] = True"
| "handles_valid (Push p u # rest) = (p \<noteq> nullptr \<and> u \<noteq> nullptr \<and> handles_valid rest)"
| "handles_valid (Pop # rest) = handles_valid rest"

subsection \<open>What each function does to the state\<close>

lemmas action_defs =
  return_op_def throw_op_def bind_op_def gets_def modify_def modify_tls_def
  c_assert_def optional_value_def TORCH_CHECK_def

lemma is_enabled_eq:
  "is_enabled s = (Inr (disabled_error_message (tls s) = None), s)"
  by (simp add: is_enabled_def action_defs)

lemma assertNotDisabled_eq:
  "assertSavedTensorHooksNotDisabled s =
     (case disabled_error_message (tls s) of
        None \<Rightarrow> (Inr (), s)
      | Some m \<Rightarrow> (Inl (Error m), s))"
  by (simp add: assertSavedTensorHooksNotDisabled_def is_enabled_def action_defs
      split: option.splits)

lemma disable_eq:
  "disable m s =
     (if stack (tls s) = [] then Inr () else Inl (Error m),
      s\<lparr>tls := (tls s)\<lparr>disabled_error_message := Some m\<rparr>\<rparr>)"
  by (simp add: disable_def assertSavedTensorHooksNotDisabled_def is_enabled_def action_defs)

lemma set_tracing_eq:
  "set_tracing v s = (Inr (is_tracing (tls s)), s\<lparr>tls := (tls s)\<lparr>is_tracing := v\<rparr>\<rparr>)"
  by (simp add: set_tracing_def action_defs)

lemma push_hooks_eq:
  "push_hooks p u s =
     (if \<not> is_initialized s then (Inl AssertionFailed, s)
      else if p = nullptr \<or> u = nullptr then (Inl AssertionFailed, s)
      else (case disabled_error_message (tls s) of
              Some m \<Rightarrow> (Inl (Error m), s)
            | None \<Rightarrow> (Inr (), s\<lparr>tls := (tls s)\<lparr>stack := stack (tls s) @ [(p, u)]\<rparr>\<rparr>)))"
  by (simp add: push_hooks_def assertNotDisabled_eq bind_op_def gets_def c_assert_def
      return_op_def throw_op_def modify_tls_def modify_def split: option.splits)

lemma pop_hooks_eq:
  "pop_hooks s =
     (if is_initialized s \<and> stack (tls s) \<noteq> []
      then (Inr (last (stack (tls s))), s\<lparr>tls := (tls s)\<lparr>stack := butlast (stack (tls s))\<rparr>\<rparr>)
      else (Inl AssertionFailed, s))"
  by (simp add: pop_hooks_def action_defs)

lemma get_hooks_eq:
  "get_hooks s =
     (Inr (if \<not> is_initialized s \<or> stack (tls s) = [] \<or> is_tracing (tls s)
           then (nullptr, nullptr) else last (stack (tls s))), s)"
  by (simp add: get_hooks_def action_defs)

lemma get_tls_set_tls_eq:
  "bind_op get_tls_state set_tls_state s = (Inr (), s)"
  by (simp add: get_tls_state_def set_tls_state_def action_defs)

lemma lazy_initialize_eq:
  "lazy_initialize s = (Inr (), s\<lparr>is_initialized := True\<rparr>)"
  by (simp add: lazy_initialize_def modify_def)

lemma fresh_state_simps:
  "is_initialized fresh_state = False"
  "stack (tls fresh_state) = []"
  "disabled_error_message (tls fresh_state) = None"
  "is_tracing (tls fresh_state) = False"
  by (simp_all add: fresh_state_def)

lemma ready_state_simps:
  "is_initialized ready_state = True"
  "stack (tls ready_state) = []"
  "disabled_error_message (tls ready_state) = None"
  "is_tracing (tls ready_state) = False"
  by (simp_all add: ready_state_def fresh_state_def)

subsection \<open>Sequences of pushes and pops\<close>

lemma run_append:
  "run (a @ b) s =
     (case run a s of (Inl e, s') \<Rightarrow> (Inl e, s') | (Inr _, s') \<Rightarrow> run b s')"
proof (induction a arbitrary: s)
  case Nil
  show ?case by (simp add: return_op_def)
next
  case (Cons x a)
  show ?case
    by (cases x) (simp_all add: Cons.IH bind_op_def split: prod.splits sum.splits)
qed

lemma handles_valid_append:
  "handles_valid (a @ b) = (handles_valid a \<and> handles_valid b)"
  by (induction a rule: handles_valid.induct) simp_all

text \<open>
  With \<open>n\<close> scopes open, a sequence that closes exactly those \<open>n\<close> and everything it
  opens itself runs to the end and leaves the stack \<open>n\<close> entries shorter; nothing
  else changes.
\<close>

lemma run_balanced_from:
  "is_initialized s \<Longrightarrow> disabled_error_message (tls s) = None \<Longrightarrow> handles_valid ops \<Longrightarrow>
   balanced_from n ops \<Longrightarrow> n \<le> length (stack (tls s)) \<Longrightarrow>
   run ops s =
     (Inr (), s\<lparr>tls := (tls s)\<lparr>stack := take (length (stack (tls s)) - n) (stack (tls s))\<rparr>\<rparr>)"
proof (induction ops arbitrary: s n)
  case Nil
  then show ?case by (simp add: return_op_def)
next
  case (Cons x ops)
  show ?case
  proof (cases x)
    case (Push p u)
    let ?s1 = "s\<lparr>tls := (tls s)\<lparr>stack := stack (tls s) @ [(p, u)]\<rparr>\<rparr>"
    have push: "push_hooks p u s = (Inr (), ?s1)"
      using Cons.prems Push by (simp add: push_hooks_eq)
    have "run ops ?s1 =
        (Inr (), ?s1\<lparr>tls := (tls ?s1)\<lparr>stack :=
           take (length (stack (tls ?s1)) - Suc n) (stack (tls ?s1))\<rparr>\<rparr>)"
      using Cons.prems Push by (intro Cons.IH) simp_all
    then show ?thesis
      using Push push Cons.prems(5) by (simp add: bind_op_def)
  next
    case Pop
    with Cons.prems obtain m where n: "n = Suc m" and bal: "balanced_from m ops"
      by (auto split: nat.splits)
    let ?s1 = "s\<lparr>tls := (tls s)\<lparr>stack := butlast (stack (tls s))\<rparr>\<rparr>"
    have ne: "stack (tls s) \<noteq> []"
      using Cons.prems(5) n by auto
    have pop: "pop_hooks s = (Inr (last (stack (tls s))), ?s1)"
      using Cons.prems ne by (simp add: pop_hooks_eq)
    have "run ops ?s1 =
        (Inr (), ?s1\<lparr>tls := (tls ?s1)\<lparr>stack :=
           take (length (stack (tls ?s1)) - m) (stack (tls ?s1))\<rparr>\<rparr>)"
      using Cons.prems Pop bal n by (intro Cons.IH) simp_all
    moreover have "take (length (stack (tls s)) - Suc m) (butlast (stack (tls s))) =
        take (length (stack (tls s)) - Suc m) (stack (tls s))"
      by (simp add: butlast_conv_take min_def)
    ultimately show ?thesis
      using Pop pop n by (simp add: bind_op_def)
  qed
qed

lemma run_balanced:
  assumes "is_initialized s" "disabled_error_message (tls s) = None"
    "handles_valid ops" "balanced ops"
  shows "run ops s = (Inr (), s)"
  using run_balanced_from [of s ops 0] assms by (simp add: balanced_def)

text \<open>Every prefix of such a sequence runs to its end too, and touches only the stack.\<close>

lemma run_prefix:
  "is_initialized s \<Longrightarrow> disabled_error_message (tls s) = None \<Longrightarrow>
   handles_valid (pre @ rest) \<Longrightarrow> balanced_from n (pre @ rest) \<Longrightarrow>
   n \<le> length (stack (tls s)) \<Longrightarrow>
   \<exists>st. run pre s = (Inr (), s\<lparr>tls := (tls s)\<lparr>stack := st\<rparr>\<rparr>)"
proof (induction pre arbitrary: s n)
  case Nil
  have "s = s\<lparr>tls := (tls s)\<lparr>stack := stack (tls s)\<rparr>\<rparr>" by simp
  then have "run [] s = (Inr (), s\<lparr>tls := (tls s)\<lparr>stack := stack (tls s)\<rparr>\<rparr>)"
    by (simp add: return_op_def)
  then show ?case by blast
next
  case (Cons x pre)
  show ?case
  proof (cases x)
    case (Push p u)
    let ?s1 = "s\<lparr>tls := (tls s)\<lparr>stack := stack (tls s) @ [(p, u)]\<rparr>\<rparr>"
    have push: "push_hooks p u s = (Inr (), ?s1)"
      using Cons.prems Push by (simp add: push_hooks_eq)
    have "\<exists>st. run pre ?s1 = (Inr (), ?s1\<lparr>tls := (tls ?s1)\<lparr>stack := st\<rparr>\<rparr>)"
      using Cons.prems Push by (intro Cons.IH [where n = "Suc n"]) simp_all
    then show ?thesis
      using Push push by (simp add: bind_op_def)
  next
    case Pop
    with Cons.prems obtain m where n: "n = Suc m" and bal: "balanced_from m (pre @ rest)"
      by (auto split: nat.splits)
    let ?s1 = "s\<lparr>tls := (tls s)\<lparr>stack := butlast (stack (tls s))\<rparr>\<rparr>"
    have ne: "stack (tls s) \<noteq> []"
      using Cons.prems(5) n by auto
    have pop: "pop_hooks s = (Inr (last (stack (tls s))), ?s1)"
      using Cons.prems ne by (simp add: pop_hooks_eq)
    have "\<exists>st. run pre ?s1 = (Inr (), ?s1\<lparr>tls := (tls ?s1)\<lparr>stack := st\<rparr>\<rparr>)"
      using Cons.prems Pop bal n by (intro Cons.IH [where n = m]) simp_all
    then show ?thesis
      using Pop pop by (simp add: bind_op_def)
  qed
qed

text \<open>
  After a prefix that ends with a push followed by a balanced block, the pushed pair is
  on top of the stack.
\<close>

lemma run_upto_open_push:
  assumes init: "is_initialized s" and en: "disabled_error_message (tls s) = None"
    and valid: "handles_valid (pre @ Push p u # mid @ post)"
    and bal: "balanced (pre @ Push p u # mid @ post)"
    and mid: "balanced mid"
  shows "\<exists>st. run (pre @ Push p u # mid) s =
    (Inr (), s\<lparr>tls := (tls s)\<lparr>stack := st @ [(p, u)]\<rparr>\<rparr>)"
proof -
  from run_prefix [OF init en valid] bal
  obtain st where pre: "run pre s = (Inr (), s\<lparr>tls := (tls s)\<lparr>stack := st\<rparr>\<rparr>)"
    by (auto simp: balanced_def)
  let ?s1 = "s\<lparr>tls := (tls s)\<lparr>stack := st\<rparr>\<rparr>"
  let ?s2 = "s\<lparr>tls := (tls s)\<lparr>stack := st @ [(p, u)]\<rparr>\<rparr>"
  from valid have pu: "p \<noteq> nullptr" "u \<noteq> nullptr" and vmid: "handles_valid mid"
    by (simp_all add: handles_valid_append)
  have push: "push_hooks p u ?s1 = (Inr (), ?s2)"
    using init en pu by (simp add: push_hooks_eq)
  have "run mid ?s2 = (Inr (), ?s2)"
    using init en vmid mid by (intro run_balanced) simp_all
  with push have "run (Push p u # mid) ?s1 = (Inr (), ?s2)"
    by (simp add: bind_op_def)
  with pre have "run (pre @ Push p u # mid) s = (Inr (), ?s2)"
    by (simp add: run_append)
  then show ?thesis by blast
qed

section \<open>The claims\<close>

text \<open>
  C1. Take a thread state that is initialized, enabled and not tracing, and a balanced
  sequence of pushes (of non-null handles) and pops. The whole sequence runs without
  failure. At every point of it that follows a push of \<open>(p, u)\<close> and a balanced block
  after that push (so that \<open>(p, u)\<close> is the most recently pushed pair not yet popped),
  \<^verbatim>\<open>get_hooks\<close> returns \<open>(p, u)\<close>. At the end, and after every balanced prefix, the state
  is the one before the sequence, so \<^verbatim>\<open>get_hooks\<close> answers "no handler" if it did so
  before.
\<close>

theorem balanced_sequence_lookup:
  assumes "is_initialized s" and "disabled_error_message (tls s) = None"
    and "\<not> is_tracing (tls s)" and "balanced ops" and "handles_valid ops"
  shows "run ops s = (Inr (), s) \<and>
    (fst (get_hooks s) = Inr (nullptr, nullptr) \<longrightarrow>
       fst (get_hooks (snd (run ops s))) = Inr (nullptr, nullptr)) \<and>
    (\<forall>pre post. ops = pre @ post \<and> balanced pre \<longrightarrow> run pre s = (Inr (), s)) \<and>
    (\<forall>pre p u mid post. ops = pre @ Push p u # mid @ post \<and> balanced mid \<longrightarrow>
       (\<exists>s'. run (pre @ Push p u # mid) s = (Inr (), s') \<and>
             get_hooks s' = (Inr (p, u), s')))"
proof -
  have whole: "run ops s = (Inr (), s)"
    using assms by (intro run_balanced)
  have closed: "run pre s = (Inr (), s)"
    if "ops = pre @ post" and "balanced pre" for pre post
    using that assms by (intro run_balanced) (simp_all add: handles_valid_append)
  have each: "\<exists>s'. run (pre @ Push p u # mid) s = (Inr (), s') \<and>
      get_hooks s' = (Inr (p, u), s')"
    if split: "ops = pre @ Push p u # mid @ post" and mid: "balanced mid"
    for pre p u mid post
  proof -
    from run_upto_open_push [of s pre p u mid post] assms split mid
    obtain st where r: "run (pre @ Push p u # mid) s =
        (Inr (), s\<lparr>tls := (tls s)\<lparr>stack := st @ [(p, u)]\<rparr>\<rparr>)"
      by auto
    have "get_hooks (s\<lparr>tls := (tls s)\<lparr>stack := st @ [(p, u)]\<rparr>\<rparr>) =
        (Inr (p, u), s\<lparr>tls := (tls s)\<lparr>stack := st @ [(p, u)]\<rparr>\<rparr>)"
      using assms(1,3) by (simp add: get_hooks_eq)
    with r show ?thesis by blast
  qed
  from whole closed each show ?thesis by simp
qed

theorem balanced_sequence_lookup_witness:
  "balanced [Push 1 2, Push 3 4, Pop, Pop] \<and>
   fst (get_hooks ready_state) = Inr (nullptr, nullptr) \<and>
   run [Push 1 2, Push 3 4, Pop, Pop] ready_state = (Inr (), ready_state) \<and>
   fst (get_hooks (snd (run [Push 1 2, Push 3 4, Pop, Pop] ready_state))) =
     Inr (nullptr, nullptr) \<and>
   (\<exists>s'. run [Push 1 2, Push 3 4] ready_state = (Inr (), s') \<and>
         get_hooks s' = (Inr (3, 4), s')) \<and>
   (\<exists>s'. run [Push 1 2, Push 3 4, Pop] ready_state = (Inr (), s') \<and>
         get_hooks s' = (Inr (1, 2), s'))"
proof -
  let ?ops = "[Push 1 2, Push 3 4, Pop, Pop]"
  have bal: "balanced ?ops" and bal2: "balanced [Push 3 4, Pop]" and bal0: "balanced []"
    by (simp_all add: balanced_def)
  have valid: "handles_valid ?ops"
    by (simp add: nullptr_def)
  have none: "fst (get_hooks ready_state) = Inr (nullptr, nullptr)"
    by (simp add: get_hooks_eq ready_state_simps)
  have i: "is_initialized ready_state"
    and e: "disabled_error_message (tls ready_state) = None"
    and nt: "\<not> is_tracing (tls ready_state)"
    by (simp_all add: ready_state_simps)
  note t' = balanced_sequence_lookup [OF i e nt bal valid]
  from t' have whole: "run ?ops ready_state = (Inr (), ready_state)"
    and after: "fst (get_hooks (snd (run ?ops ready_state))) = Inr (nullptr, nullptr)"
    and each: "\<And>pre p u mid post. ?ops = pre @ Push p u # mid @ post \<Longrightarrow> balanced mid \<Longrightarrow>
       \<exists>s'. run (pre @ Push p u # mid) ready_state = (Inr (), s') \<and>
             get_hooks s' = (Inr (p, u), s')"
    using none by blast+
  have a: "\<exists>s'. run [Push 1 2, Push 3 4] ready_state = (Inr (), s') \<and>
      get_hooks s' = (Inr (3, 4), s')"
    using each [of "[Push 1 2]" 3 4 "[]" "[Pop, Pop]"] bal0 by simp
  have b: "\<exists>s'. run [Push 1 2, Push 3 4, Pop] ready_state = (Inr (), s') \<and>
      get_hooks s' = (Inr (1, 2), s')"
    using each [of "[]" 1 2 "[Push 3 4, Pop]" "[Pop]"] bal2 by simp
  from bal none whole after a b show ?thesis by blast
qed

text \<open>
  C2. When the stack is not empty, \<^verbatim>\<open>disable(m)\<close> fails with the message \<open>m\<close>, and
  the state it leaves is disabled with reason \<open>m\<close>: \<^verbatim>\<open>is_enabled\<close> answers false and
  \<^verbatim>\<open>get_disabled_error_message\<close> answers \<open>m\<close>. When the stack is empty,
  \<^verbatim>\<open>disable(m)\<close> succeeds, and the state it leaves is disabled with reason \<open>m\<close> as
  well. In both cases the message is the only field that changes.
\<close>

theorem disable_open_scope:
  "(stack (tls s) \<noteq> [] \<longrightarrow>
      fst (disable m s) = Inl (Error m) \<and>
      fst (is_enabled (snd (disable m s))) = Inr False \<and>
      fst (get_disabled_error_message (snd (disable m s))) = Inr (Some m)) \<and>
   (stack (tls s) = [] \<longrightarrow>
      fst (disable m s) = Inr () \<and>
      fst (is_enabled (snd (disable m s))) = Inr False \<and>
      fst (get_disabled_error_message (snd (disable m s))) = Inr (Some m)) \<and>
   snd (disable m s) = s\<lparr>tls := (tls s)\<lparr>disabled_error_message := Some m\<rparr>\<rparr>"
  by (simp add: disable_eq is_enabled_eq get_disabled_error_message_def gets_def)

theorem disable_open_scope_witness:
  "stack (tls (snd (push_hooks 1 2 ready_state))) = [(1, 2)] \<and>
   fst (disable ''x'' (snd (push_hooks 1 2 ready_state))) = Inl (Error ''x'') \<and>
   fst (is_enabled (snd (disable ''x'' (snd (push_hooks 1 2 ready_state))))) = Inr False \<and>
   fst (get_disabled_error_message (snd (disable ''x'' (snd (push_hooks 1 2 ready_state))))) =
     Inr (Some ''x'') \<and>
   stack (tls (snd (disable ''x'' (snd (push_hooks 1 2 ready_state))))) = [(1, 2)] \<and>
   fst (disable ''x'' fresh_state) = Inr () \<and>
   fst (is_enabled (snd (disable ''x'' fresh_state))) = Inr False \<and>
   fst (get_disabled_error_message (snd (disable ''x'' fresh_state))) = Inr (Some ''x'') \<and>
   snd (disable ''x'' fresh_state) =
     fresh_state\<lparr>tls := (tls fresh_state)\<lparr>disabled_error_message := Some ''x''\<rparr>\<rparr>"
proof -
  have st: "stack (tls (snd (push_hooks 1 2 ready_state))) = [(1, 2)]"
    by (simp add: push_hooks_eq ready_state_simps nullptr_def)
  then have ne: "stack (tls (snd (push_hooks 1 2 ready_state))) \<noteq> []"
    by simp
  from disable_open_scope [of "snd (push_hooks 1 2 ready_state)" "''x''"] ne
  have a: "fst (disable ''x'' (snd (push_hooks 1 2 ready_state))) = Inl (Error ''x'') \<and>
      fst (is_enabled (snd (disable ''x'' (snd (push_hooks 1 2 ready_state))))) = Inr False \<and>
      fst (get_disabled_error_message (snd (disable ''x'' (snd (push_hooks 1 2 ready_state))))) =
        Inr (Some ''x'')"
    by blast
  from disable_open_scope [of "snd (push_hooks 1 2 ready_state)" "''x''"] st
  have a': "stack (tls (snd (disable ''x'' (snd (push_hooks 1 2 ready_state))))) = [(1, 2)]"
    by simp
  have emp: "stack (tls fresh_state) = []"
    by (simp add: fresh_state_simps)
  from disable_open_scope [of fresh_state "''x''"] emp
  have b: "fst (disable ''x'' fresh_state) = Inr () \<and>
      fst (is_enabled (snd (disable ''x'' fresh_state))) = Inr False \<and>
      fst (get_disabled_error_message (snd (disable ''x'' fresh_state))) = Inr (Some ''x'')"
    and c: "snd (disable ''x'' fresh_state) =
      fresh_state\<lparr>tls := (tls fresh_state)\<lparr>disabled_error_message := Some ''x''\<rparr>\<rparr>"
    by blast+
  from st a a' b c show ?thesis by blast
qed

text \<open>
  C3, as the code has it. \<^verbatim>\<open>push_hooks\<close> asserts the readiness flag and the two
  handles before it looks at the disabled message. So in a disabled state with reason
  \<open>x\<close>, a push of non-null handles with the flag set fails with the message \<open>x\<close>; in
  every disabled state the push fails one way or the other (at an assertion when the
  flag is unset or a handle is null), and the state, the stack with it, is as it was.
\<close>

theorem push_while_disabled:
  assumes "disabled_error_message (tls s) = Some x"
  shows "(is_initialized s \<and> p \<noteq> nullptr \<and> u \<noteq> nullptr \<longrightarrow>
            push_hooks p u s = (Inl (Error x), s)) \<and>
         (\<not> is_initialized s \<or> p = nullptr \<or> u = nullptr \<longrightarrow>
            push_hooks p u s = (Inl AssertionFailed, s)) \<and>
         (\<exists>e. push_hooks p u s = (Inl e, s)) \<and>
         stack (tls (snd (push_hooks p u s))) = stack (tls s)"
  using assms by (simp add: push_hooks_eq)

theorem push_while_disabled_witness:
  "disabled_error_message (tls (snd (disable ''x'' ready_state))) = Some ''x'' \<and>
   push_hooks 1 2 (snd (disable ''x'' ready_state)) =
     (Inl (Error ''x''), snd (disable ''x'' ready_state)) \<and>
   stack (tls (snd (push_hooks 1 2 (snd (disable ''x'' ready_state))))) =
     stack (tls (snd (disable ''x'' ready_state)))"
proof -
  have d: "disabled_error_message (tls (snd (disable ''x'' ready_state))) = Some ''x''"
    by (simp add: disable_eq)
  have i: "is_initialized (snd (disable ''x'' ready_state))"
    by (simp add: disable_eq ready_state_simps)
  from push_while_disabled [OF d, of 1 2] i d show ?thesis
    by (simp add: nullptr_def)
qed

text \<open>
  The claim as written fails in a process whose readiness flag is still unset:
  \<^verbatim>\<open>disable("x")\<close> succeeds there, and the push that follows stops at
  \<^verbatim>\<open>assert(is_initialized)\<close>, not at the check that carries \<open>x\<close>.
\<close>

theorem push_while_disabled_counterexample:
  "disabled_error_message (tls (snd (disable ''x'' fresh_state))) = Some ''x'' \<and>
   fst (push_hooks 1 2 (snd (disable ''x'' fresh_state))) = Inl AssertionFailed \<and>
   fst (push_hooks 1 2 (snd (disable ''x'' fresh_state))) \<noteq> Inl (Error ''x'')"
  by (simp add: disable_eq push_hooks_eq fresh_state_simps)

text \<open>
  C4. The push after \<^verbatim>\<open>set_tracing(true)\<close> returns normally exactly when the flag is
  set, the state is enabled and both handles are non-null. Whenever it does,
  \<^verbatim>\<open>get_hooks\<close> answers "no handler" although the stack is not empty and has \<open>(p, u)\<close>
  on top; after \<^verbatim>\<open>set_tracing(false)\<close> the stack is the same and \<^verbatim>\<open>get_hooks\<close>
  answers \<open>(p, u)\<close>.
\<close>

theorem tracing_hides_hooks:
  "(fst (push_hooks p u (snd (set_tracing True s))) = Inr ()) =
     (is_initialized s \<and> disabled_error_message (tls s) = None \<and>
      p \<noteq> nullptr \<and> u \<noteq> nullptr) \<and>
   (\<forall>s2. push_hooks p u (snd (set_tracing True s)) = (Inr (), s2) \<longrightarrow>
      fst (get_hooks s2) = Inr (nullptr, nullptr) \<and>
      stack (tls s2) \<noteq> [] \<and> last (stack (tls s2)) = (p, u) \<and>
      stack (tls (snd (set_tracing False s2))) = stack (tls s2) \<and>
      fst (get_hooks (snd (set_tracing False s2))) = Inr (p, u))"
  by (auto simp add: set_tracing_eq push_hooks_eq get_hooks_eq split: option.splits)

theorem tracing_hides_hooks_witness:
  "(\<exists>s2. push_hooks 1 2 (snd (set_tracing True ready_state)) = (Inr (), s2) \<and>
      fst (get_hooks s2) = Inr (nullptr, nullptr) \<and>
      stack (tls s2) = [(1, 2)] \<and>
      stack (tls (snd (set_tracing False s2))) = [(1, 2)] \<and>
      fst (get_hooks (snd (set_tracing False s2))) = Inr (1, 2))"
proof -
  obtain s2 where s2: "push_hooks 1 2 (snd (set_tracing True ready_state)) = (Inr (), s2)"
    and st: "stack (tls s2) = [(1, 2)]"
    by (simp add: set_tracing_eq push_hooks_eq ready_state_simps nullptr_def)
  from tracing_hides_hooks [of 1 2 ready_state] s2
  have "fst (get_hooks s2) = Inr (nullptr, nullptr) \<and>
      stack (tls (snd (set_tracing False s2))) = stack (tls s2) \<and>
      fst (get_hooks (snd (set_tracing False s2))) = Inr (1, 2)"
    by blast
  with s2 st show ?thesis by auto
qed

text \<open>
  C5, as the code has it. \<^verbatim>\<open>push_hooks\<close> never changes the readiness flag: it asserts
  that the flag is already set, and with the flag unset it fails at that assertion and
  changes nothing. The flag is set by \<^verbatim>\<open>lazy_initialize\<close>, which changes nothing else
  and may be repeated. A push that returns normally was made with the flag set and
  leaves it set.
\<close>

theorem push_requires_initialized:
  "is_initialized (snd (push_hooks p u s)) = is_initialized s \<and>
   (\<not> is_initialized s \<longrightarrow> push_hooks p u s = (Inl AssertionFailed, s)) \<and>
   (fst (push_hooks p u s) = Inr () \<longrightarrow>
      is_initialized s \<and> is_initialized (snd (push_hooks p u s))) \<and>
   lazy_initialize s = (Inr (), s\<lparr>is_initialized := True\<rparr>) \<and>
   lazy_initialize (snd (lazy_initialize s)) = lazy_initialize s"
  by (simp add: push_hooks_eq lazy_initialize_eq split: option.splits)

theorem push_requires_initialized_witness:
  "push_hooks 1 2 fresh_state = (Inl AssertionFailed, fresh_state) \<and>
   snd (lazy_initialize fresh_state) = ready_state \<and>
   fst (push_hooks 1 2 (snd (lazy_initialize fresh_state))) = Inr () \<and>
   is_initialized (snd (push_hooks 1 2 (snd (lazy_initialize fresh_state))))"
proof -
  have r: "snd (lazy_initialize fresh_state) = ready_state"
    by (simp add: lazy_initialize_eq ready_state_def)
  have ok: "fst (push_hooks 1 2 ready_state) = Inr ()"
    by (simp add: push_hooks_eq ready_state_simps nullptr_def)
  from push_requires_initialized [of 1 2 fresh_state]
  have a: "push_hooks 1 2 fresh_state = (Inl AssertionFailed, fresh_state)"
    by (simp add: fresh_state_simps)
  from push_requires_initialized [of 1 2 ready_state] ok
  have b: "is_initialized (snd (push_hooks 1 2 ready_state))"
    by blast
  from r ok a b show ?thesis by simp
qed

text \<open>
  The claim as written fails at the first push of a process: nothing has set the flag,
  the push does not set it either, and the push fails.
\<close>

theorem push_requires_initialized_counterexample:
  "\<not> is_initialized fresh_state \<and>
   fst (push_hooks 1 2 fresh_state) = Inl AssertionFailed \<and>
   \<not> is_initialized (snd (push_hooks 1 2 fresh_state))"
  by (simp add: push_hooks_eq fresh_state_simps)

text \<open>
  C6. \<^verbatim>\<open>set_tls_state(get_tls_state())\<close> succeeds and leaves the state as it was, so
  \<^verbatim>\<open>is_enabled\<close>, \<^verbatim>\<open>get_disabled_error_message\<close>, \<^verbatim>\<open>get_hooks\<close> and any later
  operation \<open>q\<close> behave as if neither had been called.
\<close>

theorem tls_state_round_trip:
  "bind_op get_tls_state set_tls_state s = (Inr (), s) \<and>
   is_enabled (snd (bind_op get_tls_state set_tls_state s)) = is_enabled s \<and>
   get_disabled_error_message (snd (bind_op get_tls_state set_tls_state s)) =
     get_disabled_error_message s \<and>
   get_hooks (snd (bind_op get_tls_state set_tls_state s)) = get_hooks s \<and>
   bind_op (bind_op get_tls_state set_tls_state) (\<lambda>_. q) s = q s"
proof -
  have rt: "bind_op get_tls_state set_tls_state s = (Inr (), s)"
    by (rule get_tls_set_tls_eq)
  have "bind_op (bind_op get_tls_state set_tls_state) (\<lambda>_. q) s = q s"
    by (simp add: bind_op_def [of "bind_op get_tls_state set_tls_state"] rt)
  with rt show ?thesis by simp
qed

theorem tls_state_round_trip_witness:
  "bind_op get_tls_state set_tls_state (snd (push_hooks 1 2 ready_state)) =
     (Inr (), snd (push_hooks 1 2 ready_state)) \<and>
   fst (get_hooks (snd (bind_op get_tls_state set_tls_state (snd (push_hooks 1 2 ready_state))))) =
     Inr (1, 2) \<and>
   fst (bind_op (bind_op get_tls_state set_tls_state) (\<lambda>_. pop_hooks)
     (snd (push_hooks 1 2 ready_state))) = Inr (1, 2)"
proof -
  have g: "fst (get_hooks (snd (push_hooks 1 2 ready_state))) = Inr (1, 2)"
    by (simp add: push_hooks_eq get_hooks_eq ready_state_simps nullptr_def)
  have p: "fst (pop_hooks (snd (push_hooks 1 2 ready_state))) = Inr (1, 2)"
    by (simp add: push_hooks_eq pop_hooks_eq ready_state_simps nullptr_def)
  from tls_state_round_trip [of "snd (push_hooks 1 2 ready_state)" pop_hooks] g p
  show ?thesis by simp
qed

text \<open>
  C7. In every state and for every \<open>v\<close>, \<^verbatim>\<open>set_tracing(v)\<close> succeeds, returns the
  tracing flag as it was and sets it to \<open>v\<close>; the stack, the disabled message and the
  readiness flag are untouched. Calling \<^verbatim>\<open>set_tracing\<close> again with the returned value
  gives back the original state.
\<close>

theorem set_tracing_swap:
  "fst (set_tracing v s) = Inr (is_tracing (tls s)) \<and>
   is_tracing (tls (snd (set_tracing v s))) = v \<and>
   stack (tls (snd (set_tracing v s))) = stack (tls s) \<and>
   disabled_error_message (tls (snd (set_tracing v s))) = disabled_error_message (tls s) \<and>
   is_initialized (snd (set_tracing v s)) = is_initialized s \<and>
   snd (set_tracing v s) = s\<lparr>tls := (tls s)\<lparr>is_tracing := v\<rparr>\<rparr> \<and>
   snd (set_tracing (is_tracing (tls s)) (snd (set_tracing v s))) = s"
  by (simp add: set_tracing_eq)

text \<open>
  C8. \<^verbatim>\<open>get_hooks\<close> never fails and never changes the state. It answers the null pair
  ("no handler") when the readiness flag is unset, the stack is empty or tracing is
  on, and the last element of the stack otherwise.
\<close>

theorem get_hooks_total:
  "get_hooks s =
     (Inr (if \<not> is_initialized s \<or> stack (tls s) = [] \<or> is_tracing (tls s)
           then (nullptr, nullptr) else last (stack (tls s))), s)"
  by (rule get_hooks_eq)

theorem get_hooks_total_witness:
  "get_hooks fresh_state = (Inr (nullptr, nullptr), fresh_state) \<and>
   get_hooks ready_state = (Inr (nullptr, nullptr), ready_state) \<and>
   get_hooks (snd (run [Push 1 2, Push 3 4] ready_state)) =
     (Inr (3, 4), snd (run [Push 1 2, Push 3 4] ready_state)) \<and>
   get_hooks (snd (set_tracing True (snd (run [Push 1 2, Push 3 4] ready_state)))) =
     (Inr (nullptr, nullptr), snd (set_tracing True (snd (run [Push 1 2, Push 3 4] ready_state)))) \<and>
   get_hooks ((snd (run [Push 1 2, Push 3 4] ready_state))\<lparr>is_initialized := False\<rparr>) =
     (Inr (nullptr, nullptr), (snd (run [Push 1 2, Push 3 4] ready_state))\<lparr>is_initialized := False\<rparr>)"
proof -
  let ?s = "snd (run [Push 1 2, Push 3 4] ready_state)"
  have s: "is_initialized ?s" "stack (tls ?s) = [(1, 2), (3, 4)]" "\<not> is_tracing (tls ?s)"
    by (simp_all add: push_hooks_eq bind_op_def return_op_def ready_state_simps nullptr_def)
  have a: "get_hooks fresh_state = (Inr (nullptr, nullptr), fresh_state)"
    using get_hooks_total [of fresh_state] by (simp add: fresh_state_simps)
  have b: "get_hooks ready_state = (Inr (nullptr, nullptr), ready_state)"
    using get_hooks_total [of ready_state] by (simp add: ready_state_simps)
  have c: "get_hooks ?s = (Inr (3, 4), ?s)"
    using get_hooks_total [of ?s] s by simp
  have d: "get_hooks (snd (set_tracing True ?s)) =
      (Inr (nullptr, nullptr), snd (set_tracing True ?s))"
    using get_hooks_total [of "snd (set_tracing True ?s)"] by (simp add: set_tracing_eq)
  have e: "get_hooks (?s\<lparr>is_initialized := False\<rparr>) =
      (Inr (nullptr, nullptr), ?s\<lparr>is_initialized := False\<rparr>)"
    using get_hooks_total [of "?s\<lparr>is_initialized := False\<rparr>"] by simp
  from a b c d e show ?thesis by blast
qed

text \<open>
  C9. With an empty stack \<^verbatim>\<open>pop_hooks\<close> fails at its assertion (the abort of a failed
  \<^verbatim>\<open>assert\<close>, not the exception of \<^verbatim>\<open>TORCH_CHECK\<close>) whatever the disabled message, the
  tracing flag and the readiness flag are, and changes nothing. With a non-empty
  stack and the readiness flag set it returns the last element of the stack and
  removes it.
\<close>

theorem pop_hooks_contract:
  "(stack (tls s) = [] \<longrightarrow> pop_hooks s = (Inl AssertionFailed, s)) \<and>
   (stack (tls s) \<noteq> [] \<and> is_initialized s \<longrightarrow>
      pop_hooks s =
        (Inr (last (stack (tls s))), s\<lparr>tls := (tls s)\<lparr>stack := butlast (stack (tls s))\<rparr>\<rparr>))"
  by (simp add: pop_hooks_eq)

theorem pop_hooks_contract_witness:
  "pop_hooks ready_state = (Inl AssertionFailed, ready_state) \<and>
   pop_hooks (snd (set_tracing True (snd (disable ''x'' ready_state)))) =
     (Inl AssertionFailed, snd (set_tracing True (snd (disable ''x'' ready_state)))) \<and>
   stack (tls (snd (run [Push 1 2, Push 3 4] ready_state))) = [(1, 2), (3, 4)] \<and>
   fst (pop_hooks (snd (run [Push 1 2, Push 3 4] ready_state))) = Inr (3, 4) \<and>
   stack (tls (snd (pop_hooks (snd (run [Push 1 2, Push 3 4] ready_state))))) = [(1, 2)]"
proof -
  let ?d = "snd (set_tracing True (snd (disable ''x'' ready_state)))"
  let ?s = "snd (run [Push 1 2, Push 3 4] ready_state)"
  have d: "stack (tls ?d) = []"
    by (simp add: set_tracing_eq disable_eq ready_state_simps)
  have s: "is_initialized ?s" "stack (tls ?s) = [(1, 2), (3, 4)]"
    by (simp_all add: push_hooks_eq bind_op_def return_op_def ready_state_simps nullptr_def)
  have a: "pop_hooks ready_state = (Inl AssertionFailed, ready_state)"
    using pop_hooks_contract [of ready_state] by (simp add: ready_state_simps)
  have b: "pop_hooks ?d = (Inl AssertionFailed, ?d)"
    using pop_hooks_contract [of ?d] d by blast
  have c: "pop_hooks ?s =
      (Inr (last (stack (tls ?s))), ?s\<lparr>tls := (tls ?s)\<lparr>stack := butlast (stack (tls ?s))\<rparr>\<rparr>)"
    using pop_hooks_contract [of ?s] s by simp
  have "fst (pop_hooks ?s) = Inr (3, 4)" and "stack (tls (snd (pop_hooks ?s))) = [(1, 2)]"
    using c s by (simp_all del: run.simps)
  with a b s show ?thesis by blast
qed

text \<open>
  C10. \<^verbatim>\<open>get_hooks\<close> does not read the disabled message: two states that agree on the
  stack, the tracing flag and the readiness flag get the same answer. In particular a
  \<^verbatim>\<open>disable(m)\<close>, failed or not, does not change the answer, and after a
  \<^verbatim>\<open>disable(m)\<close> that failed on a non-empty stack (flag set, not tracing) the answer
  is still the top of the stack.
\<close>

theorem get_hooks_ignores_disabled:
  "(stack (tls s) = stack (tls s') \<and> is_tracing (tls s) = is_tracing (tls s') \<and>
    is_initialized s = is_initialized s' \<longrightarrow> fst (get_hooks s) = fst (get_hooks s')) \<and>
   fst (get_hooks (s\<lparr>tls := (tls s)\<lparr>disabled_error_message := d\<rparr>\<rparr>)) = fst (get_hooks s) \<and>
   fst (get_hooks (snd (disable m s))) = fst (get_hooks s) \<and>
   (is_initialized s \<and> stack (tls s) \<noteq> [] \<and> \<not> is_tracing (tls s) \<longrightarrow>
      fst (disable m s) = Inl (Error m) \<and>
      fst (is_enabled (snd (disable m s))) = Inr False \<and>
      fst (get_hooks (snd (disable m s))) = Inr (last (stack (tls s))))"
  by (simp add: get_hooks_eq disable_eq is_enabled_eq)

theorem get_hooks_ignores_disabled_witness:
  "fst (disable ''x'' (snd (push_hooks 1 2 ready_state))) = Inl (Error ''x'') \<and>
   fst (is_enabled (snd (disable ''x'' (snd (push_hooks 1 2 ready_state))))) = Inr False \<and>
   fst (get_hooks (snd (push_hooks 1 2 ready_state))) = Inr (1, 2) \<and>
   fst (get_hooks (snd (disable ''x'' (snd (push_hooks 1 2 ready_state))))) = Inr (1, 2)"
proof -
  let ?s = "snd (push_hooks 1 2 ready_state)"
  have s: "is_initialized ?s" "stack (tls ?s) = [(1, 2)]" "\<not> is_tracing (tls ?s)"
    by (simp_all add: push_hooks_eq ready_state_simps nullptr_def)
  then have pre: "is_initialized ?s \<and> stack (tls ?s) \<noteq> [] \<and> \<not> is_tracing (tls ?s)"
    by simp
  from get_hooks_ignores_disabled [of ?s ?s None "''x''"] pre
  have a: "fst (disable ''x'' ?s) = Inl (Error ''x'') \<and>
      fst (is_enabled (snd (disable ''x'' ?s))) = Inr False \<and>
      fst (get_hooks (snd (disable ''x'' ?s))) = Inr (last (stack (tls ?s)))"
    and b: "fst (get_hooks (snd (disable ''x'' ?s))) = fst (get_hooks ?s)"
    by blast+
  from a b s(2) show ?thesis by simp
qed

end
